theory Spec2Isabelle
  imports Complex_Main
begin

section \<open>Values, messages and errors\<close>

text \<open>
  The program is Python 2: \<open>transcriber.py\<close> (the class \<open>Transcriber\<close>, a
  \<open>threading.Thread\<close>, and \<open>QueuedAudioStream\<close>) and \<open>server.py\<close> (the websocket
  handler \<open>SpeechHandler\<close> and the module-level registry \<open>_clients\<close>).

  An audio frame is a byte string. The values a JSON text message can carry, and the
  values the configuration attributes of a \<open>Transcriber\<close> can hold after \<open>setattr\<close>,
  are Python values; \<open>PEncoding\<close> is a member of the enumeration
  \<open>enums.RecognitionConfig.AudioEncoding\<close> of the speech client library, of which the
  program itself only names \<open>LINEAR16\<close>.
\<close>

type_synonym frame = string

datatype audio_encoding = ENCODING_UNSPECIFIED | LINEAR16 | FLAC | MULAW | AMR | AMR_WB
  | OGG_OPUS | SPEEX_WITH_HEADER_BYTE

datatype pyval = PNone | PBool bool | PInt int | PFloat real | PStr string
  | PList "pyval list" | PDict "(string \<times> pyval) list" | PEncoding audio_encoding

text \<open>Exceptions. \<open>ChannelError\<close> stands for whatever \<open>_create_channel\<close> raises when
  the credentials or the channel cannot be obtained.\<close>

datatype error = AttributeError | TypeError | ValueError | KeyError | IndexError
  | RuntimeError string | ChannelError

text \<open>
  A websocket message is a unicode text (for which \<open>on_message\<close> calls \<open>json.loads\<close>)
  or a byte string. \<open>Text\<close> carries what \<open>json.loads\<close> returns for the text, \<open>None\<close>
  when the text is not JSON and \<open>json.loads\<close> raises \<open>ValueError\<close>.
\<close>

datatype message = Text "pyval option" | Binary frame

section \<open>The transcriber\<close>

text \<open>
  The progress of the thread through \<open>run\<close>: not started; started by
  \<open>Thread.start\<close> but \<open>run\<close> not yet entered; past the stop check of \<open>run\<close> and
  inside \<open>_create_channel\<close>; inside the \<open>try\<close> block, iterating over the responses;
  over, with the exception \<open>run\<close> raised, if any.
\<close>

datatype thread_pc = Unstarted | Ready | Connecting | Handling | Finished "error option"

text \<open>
  The progress of the generator \<open>_request_stream\<close>: not created; created and not yet
  advanced; inside the \<open>with self.audio_stream\<close> block and before the test of the
  \<open>while\<close> loop (where it also is while it is suspended at \<open>yield\<close>); inside
  the block, past the test and before the body of the loop; finished.
\<close>

datatype stream_pc = NoStream | Created | InScope | Reading | Exhausted

text \<open>
  The attributes of a \<open>Transcriber\<close>. \<open>queue\<close> is the queue of its
  \<open>QueuedAudioStream\<close>, oldest chunk first. \<open>thread\<close> and \<open>stream\<close> are the control
  state above, \<open>spawns\<close> counts the calls of \<open>Thread.start\<close>, \<open>calls_opened\<close>
  counts the calls of \<open>service.streaming_recognize\<close>, and \<open>requests\<close> is the
  \<open>audio_content\<close> of every \<open>StreamingRecognizeRequest\<close> the generator has yielded.
\<close>

record Transcriber =
  queue :: "frame list"
  encoding :: pyval
  language :: pyval
  punctuation :: pyval
  rate :: pyval
  timeout_secs :: int
  interim_results :: bool
  is_connected :: bool
  is_started :: bool
  thread_started :: bool
  stop_event :: bool
  thread :: thread_pc
  stream :: stream_pc
  spawns :: nat
  calls_opened :: nat
  requests :: "frame list"

definition TIMEOUT_SECS :: int where
  "TIMEOUT_SECS = 8 * 60 * 60"

text \<open>\<open>Transcriber.__init__\<close> with the default arguments, as \<open>SpeechHandler\<close> calls it.\<close>

definition Transcriber_init :: Transcriber where
  "Transcriber_init =
     \<lparr>queue = [], encoding = PEncoding LINEAR16, language = PStr ''en-US'',
      punctuation = PBool True, rate = PInt 44100, timeout_secs = TIMEOUT_SECS,
      interim_results = True, is_connected = False, is_started = False,
      thread_started = False, stop_event = False, thread = Unstarted,
      stream = NoStream, spawns = 0, calls_opened = 0, requests = []\<rparr>"

text \<open>\<open>QueuedAudioStream.write\<close>, called by \<open>Transcriber.transcribe\<close>.\<close>

definition transcribe :: "frame \<Rightarrow> Transcriber \<Rightarrow> Transcriber" where
  "transcribe data t = t\<lparr>queue := queue t @ [data]\<rparr>"

text \<open>
  \<open>QueuedAudioStream.read\<close>: nothing when the queue is empty; otherwise the oldest
  chunk is taken off the queue, and returned only if it is truthy (not empty).
\<close>

definition read :: "Transcriber \<Rightarrow> frame option \<times> Transcriber" where
  "read t =
     (case queue t of
        [] \<Rightarrow> (None, t)
      | data # q \<Rightarrow> (if data \<noteq> [] then Some data else None, t\<lparr>queue := q\<rparr>))"

text \<open>\<open>QueuedAudioStream.__exit__\<close>.\<close>

definition exit_stream :: "Transcriber \<Rightarrow> Transcriber" where
  "exit_stream t = t\<lparr>queue := []\<rparr>"

text \<open>\<open>Thread.start\<close> of the standard library raises when the thread was started before.\<close>

definition Thread_start :: "Transcriber \<Rightarrow> error + Transcriber" where
  "Thread_start t =
     (if thread t \<noteq> Unstarted then Inl (RuntimeError ''threads can only be started once'')
      else Inr (t\<lparr>thread := Ready, spawns := Suc (spawns t)\<rparr>))"

definition start :: "Transcriber \<Rightarrow> error + Transcriber" where
  "start t =
     (if thread_started t then Inr t
      else let t' = t\<lparr>thread_started := True\<rparr>
           in if \<not> stop_event t' then Thread_start t' else Inr t')"

definition stop :: "Transcriber \<Rightarrow> Transcriber" where
  "stop t = t\<lparr>is_started := False, stop_event := True\<rparr>"

text \<open>The entry of \<open>run\<close>: the thread returns at once when the stop event is set.\<close>

definition run_begin :: "Transcriber \<Rightarrow> Transcriber" where
  "run_begin t =
     (if thread t \<noteq> Ready then t
      else if stop_event t then t\<lparr>thread := Finished None\<rparr>
      else t\<lparr>thread := Connecting\<rparr>)"

text \<open>
  \<open>run\<close> from \<open>_create_channel\<close> to the call of \<open>_handle_results\<close>. The argument is
  the exception of \<open>_create_channel\<close>, if it raises: that is outside the \<open>try\<close> block,
  so the thread ends without calling \<open>stop\<close>. Otherwise \<open>run\<close> sets \<open>is_started\<close>,
  creates the request generator and opens the streaming call; it does not test the stop
  event again.
\<close>

definition run_connect :: "error option \<Rightarrow> Transcriber \<Rightarrow> Transcriber" where
  "run_connect channel t =
     (if thread t \<noteq> Connecting then t
      else case channel of
        Some e \<Rightarrow> t\<lparr>thread := Finished (Some e)\<rparr>
      | None \<Rightarrow>
          t\<lparr>is_started := True, thread := Handling, stream := Created,
            calls_opened := Suc (calls_opened t)\<rparr>)"

text \<open>The \<open>finally\<close> clause of \<open>run\<close>, and the end of the thread.\<close>

definition run_finally :: "error option \<Rightarrow> Transcriber \<Rightarrow> Transcriber" where
  "run_finally exc t = (stop t)\<lparr>thread := Finished exc\<rparr>"

section \<open>The websocket handler\<close>

text \<open>
  The attributes of a \<open>SpeechHandler\<close>: its transcriber, \<open>_id\<close>, \<open>_start_time\<close> and
  \<open>_recorded_audio_data\<close>. \<open>local_host\<close> says whether \<open>request.host\<close> is
  \<open>localhost\<close> with the server's port, \<open>written\<close> lists the dictionaries passed through
  \<open>json.dumps\<close> to \<open>write_message\<close>, and \<open>closed\<close> says whether \<open>close\<close> was called.
  Logging, and the files \<open>_record_audio_files\<close> writes, are left out.
\<close>

record SpeechHandler =
  transcriber :: Transcriber
  hid :: nat
  start_time :: "real option"
  recorded_audio_data :: "frame list"
  local_host :: bool
  written :: "pyval list"
  closed :: bool

definition TIMEOUT :: real where
  "TIMEOUT = 60"

definition SpeechHandler_init :: "nat \<Rightarrow> bool \<Rightarrow> SpeechHandler" where
  "SpeechHandler_init i loc =
     \<lparr>transcriber = Transcriber_init, hid = i, start_time = None,
      recorded_audio_data = [], local_host = loc, written = [], closed = False\<rparr>"

text \<open>The result passed to the callback \<open>on_transcribed\<close>; \<open>result_text\<close> is its
  field \<open>text\<close>.\<close>

record TranscribedResult =
  result_text :: string
  is_final :: bool

definition on_transcribing :: "frame \<Rightarrow> SpeechHandler \<Rightarrow> SpeechHandler" where
  "on_transcribing data h =
     (if local_host h then h\<lparr>recorded_audio_data := recorded_audio_data h @ [data]\<rparr> else h)"

text \<open>A named tuple of two fields is truthy, so the test is on the text alone.\<close>

definition on_transcribed :: "TranscribedResult \<Rightarrow> SpeechHandler \<Rightarrow> SpeechHandler" where
  "on_transcribed result h =
     (if result_text result \<noteq> []
      then h\<lparr>written := written h
             @ [PDict [(''text'', PStr (result_text result)), (''isFinal'', PBool (is_final result))]]\<rparr>
      else h)"

definition close :: "SpeechHandler \<Rightarrow> SpeechHandler" where
  "close h = h\<lparr>closed := True\<rparr>"

subsection \<open>The response loop\<close>

text \<open>
  A result of the service: the transcripts of its alternatives, and \<open>is_final\<close>. A
  response: the code and message of its \<open>error\<close>, and its results.
\<close>

datatype api_result = Result "string list" bool

record response =
  error_code :: int
  error_message :: string
  results :: "api_result list"

definition OK :: int where
  "OK = 0"

text \<open>
  The inner loop of \<open>_handle_results\<close>. The callback \<open>on_transcribed\<close> is the
  handler's bound method, so it is always set; \<open>alternatives[0]\<close> raises on a result
  without alternatives, after the results before it were delivered.
\<close>

fun for_results :: "api_result list \<Rightarrow> SpeechHandler \<Rightarrow> SpeechHandler \<times> error option" where
  "for_results [] h = (h, None)"
| "for_results (Result [] fin # rs) h = (h, Some IndexError)"
| "for_results (Result (a # alts) fin # rs) h =
     for_results rs (on_transcribed \<lparr>result_text = a, is_final = fin\<rparr> h)"

text \<open>The body of the outer loop of \<open>_handle_results\<close>, for one response.\<close>

definition handle_response :: "response \<Rightarrow> SpeechHandler \<Rightarrow> SpeechHandler \<times> error option" where
  "handle_response resp h =
     (if error_code resp \<noteq> OK
      then (h\<lparr>transcriber := stop (transcriber h)\<rparr>,
            Some (RuntimeError (''Speech API Error: '' @ error_message resp)))
      else for_results (results resp) h)"

text \<open>\<open>_handle_results\<close> on a response stream that ends.\<close>

fun handle_results :: "response list \<Rightarrow> SpeechHandler \<Rightarrow> SpeechHandler \<times> error option" where
  "handle_results [] h = (h, None)"
| "handle_results (resp # rs) h =
     (case handle_response resp h of
        (h', Some e) \<Rightarrow> (h', Some e)
      | (h', None) \<Rightarrow> handle_results rs h')"

subsection \<open>The request loop\<close>

text \<open>
  The generator runs in a thread of the RPC library, and \<open>stop\<close> is called from other
  threads, so the test of its \<open>while\<close> loop and the body of the loop are separate
  steps. The test: when the stop event is set the \<open>with\<close> block is left, which runs
  \<open>__exit__\<close>; otherwise the body is entered.
\<close>

definition request_stream_test :: "Transcriber \<Rightarrow> Transcriber" where
  "request_stream_test t =
     (if stop_event t then (exit_stream t)\<lparr>stream := Exhausted\<rparr>
      else t\<lparr>stream := Reading\<rparr>)"

text \<open>
  The body of the loop: a chunk that \<open>read\<close> returns is passed to \<open>on_transcribing\<close>
  and yielded. The body does not look at the stop event.
\<close>

definition request_stream_body :: "SpeechHandler \<Rightarrow> SpeechHandler" where
  "request_stream_body h =
     (case read (transcriber h) of
        (None, t') \<Rightarrow> h\<lparr>transcriber := t'\<lparr>stream := InScope\<rparr>\<rparr>
      | (Some data, t') \<Rightarrow>
          (let h' = on_transcribing data (h\<lparr>transcriber := t'\<rparr>)
           in h'\<lparr>transcriber := (transcriber h')
                 \<lparr>requests := requests (transcriber h') @ [data], stream := InScope\<rparr>\<rparr>))"

text \<open>
  The generator takes its next step. The first one sets \<open>is_connected\<close> (the handler
  passes no \<open>on_connected\<close>) and enters the \<open>with\<close> block.
\<close>

definition pull :: "SpeechHandler \<Rightarrow> SpeechHandler" where
  "pull h =
     (case stream (transcriber h) of
        Created \<Rightarrow> h\<lparr>transcriber := (transcriber h)\<lparr>is_connected := True, stream := InScope\<rparr>\<rparr>
      | InScope \<Rightarrow> h\<lparr>transcriber := request_stream_test (transcriber h)\<rparr>
      | Reading \<Rightarrow> request_stream_body h
      | _ \<Rightarrow> h)"

text \<open>
  The generator is closed while it is suspended: inside the \<open>with\<close> block that runs
  \<open>__exit__\<close>; a generator that was never advanced just ends.
\<close>

definition gen_close :: "SpeechHandler \<Rightarrow> SpeechHandler" where
  "gen_close h =
     (case stream (transcriber h) of
        Created \<Rightarrow> h\<lparr>transcriber := (transcriber h)\<lparr>stream := Exhausted\<rparr>\<rparr>
      | InScope \<Rightarrow> h\<lparr>transcriber := (exit_stream (transcriber h))\<lparr>stream := Exhausted\<rparr>\<rparr>
      | _ \<Rightarrow> h)"

subsection \<open>Incoming messages\<close>

text \<open>
  \<open>time.time()\<close> returns a float, and so does the difference of two of them: it has
  no attribute \<open>total_seconds\<close>, and the call raises \<open>AttributeError\<close>.
\<close>

definition total_seconds :: "real \<Rightarrow> error + real" where
  "total_seconds d = Inl AttributeError"

text \<open>
  The timeout check at the head of \<open>on_message\<close>; \<open>now\<close> is what \<open>time.time()\<close>
  returns. \<open>None\<close> and \<open>0.0\<close> are the falsy values of \<open>_start_time\<close>. The result says
  whether the handler is to be closed.
\<close>

definition check_timeout :: "real \<Rightarrow> SpeechHandler \<Rightarrow> error + bool" where
  "check_timeout now h =
     (case start_time h of
        None \<Rightarrow> Inr False
      | Some s \<Rightarrow>
          if s \<noteq> 0 \<and> is_started (transcriber h)
          then (case total_seconds (now - s) of
                  Inl e \<Rightarrow> Inl e
                | Inr d \<Rightarrow> Inr (d > TIMEOUT))
          else Inr False)"

text \<open>\<open>name in data\<close> and \<open>data[name]\<close> for a string \<open>name\<close>.\<close>

fun starts_with :: "string \<Rightarrow> string \<Rightarrow> bool" where
  "starts_with [] s = True"
| "starts_with (c # cs) [] = False"
| "starts_with (c # cs) (d # ds) = (c = d \<and> starts_with cs ds)"

fun is_substring :: "string \<Rightarrow> string \<Rightarrow> bool" where
  "is_substring n [] = (n = [])"
| "is_substring n (d # ds) = (starts_with n (d # ds) \<or> is_substring n ds)"

fun py_contains :: "string \<Rightarrow> pyval \<Rightarrow> error + bool" where
  "py_contains name (PDict kvs) = Inr (name \<in> set (map fst kvs))"
| "py_contains name (PList xs) = Inr (PStr name \<in> set xs)"
| "py_contains name (PStr s) = Inr (is_substring name s)"
| "py_contains name data = Inl TypeError"

fun py_getitem :: "pyval \<Rightarrow> string \<Rightarrow> error + pyval" where
  "py_getitem (PDict kvs) name =
     (case map_of kvs name of None \<Rightarrow> Inl KeyError | Some v \<Rightarrow> Inr v)"
| "py_getitem data name = Inl TypeError"

text \<open>\<open>setattr\<close> on the transcriber, for the four names \<open>on_message\<close> uses.\<close>

definition setattr :: "string \<Rightarrow> pyval \<Rightarrow> Transcriber \<Rightarrow> Transcriber" where
  "setattr name v t =
     (if name = ''rate'' then t\<lparr>rate := v\<rparr>
      else if name = ''language'' then t\<lparr>language := v\<rparr>
      else if name = ''encoding'' then t\<lparr>encoding := v\<rparr>
      else if name = ''punctuation'' then t\<lparr>punctuation := v\<rparr>
      else t)"

text \<open>The \<open>for name in [...]\<close> loop of \<open>on_message\<close>.\<close>

fun set_config :: "string list \<Rightarrow> pyval \<Rightarrow> Transcriber \<Rightarrow> error + Transcriber" where
  "set_config [] data t = Inr t"
| "set_config (name # names) data t =
     (case py_contains name data of
        Inl e \<Rightarrow> Inl e
      | Inr False \<Rightarrow> set_config names data t
      | Inr True \<Rightarrow>
          (case py_getitem data name of
             Inl e \<Rightarrow> Inl e
           | Inr v \<Rightarrow>
               if v \<noteq> PNone then set_config names data (setattr name v t)
               else set_config names data t))"

text \<open>
  \<open>on_message\<close>. Every exception is raised before the handler is changed, except the
  one of \<open>Thread.start\<close>, which the guard of \<open>start\<close> excludes (lemma \<open>start_no_error\<close>);
  so the result is the exception or the handler after the call.
\<close>

definition on_message :: "real \<Rightarrow> message \<Rightarrow> SpeechHandler \<Rightarrow> error + SpeechHandler" where
  "on_message now data h =
     (case check_timeout now h of
        Inl e \<Rightarrow> Inl e
      | Inr True \<Rightarrow> Inr (close h)
      | Inr False \<Rightarrow>
          (case data of
             Text None \<Rightarrow> Inl ValueError
           | Text (Some j) \<Rightarrow>
               (case set_config [''rate'', ''language'', ''encoding'', ''punctuation''] j
                       (transcriber h) of
                  Inl e \<Rightarrow> Inl e
                | Inr t \<Rightarrow>
                    (case start t of
                       Inl e \<Rightarrow> Inl e
                     | Inr t' \<Rightarrow> Inr (h\<lparr>transcriber := t'\<rparr>)))
           | Binary d \<Rightarrow>
               if \<not> is_started (transcriber h)
               then (case start (transcriber h) of
                       Inl e \<Rightarrow> Inl e
                     | Inr t' \<Rightarrow> Inr (h\<lparr>start_time := Some now, transcriber := transcribe d t'\<rparr>))
               else Inr (h\<lparr>transcriber := transcribe d (transcriber h)\<rparr>)))"

section \<open>One session as a transition system\<close>

text \<open>
  The handler runs in the server's thread, \<open>run\<close> in the transcriber's thread, and the
  request generator in a thread of the RPC library. An execution is an interleaving of
  their steps: a websocket message arriving at a clock reading; a direct call of
  \<open>start\<close>, \<open>stop\<close> or \<open>transcribe\<close>; the thread entering \<open>run\<close>; \<open>_create_channel\<close>
  returning or raising; a response arriving from the service; the response stream
  ending; the generator taking its next step (its first statements, the test of its
  loop, or the body of its loop); the generator being closed. A step that is not enabled leaves the state as it
  is, and so does a message whose \<open>on_message\<close> raises.
\<close>

datatype event = Message real message | Start | Stop | Transcribe frame
  | RunBegin | Connect "error option" | Response response | StreamEnd | Pull | GenClose

fun step :: "event \<Rightarrow> SpeechHandler \<Rightarrow> SpeechHandler" where
  "step (Message now m) h = (case on_message now m h of Inl e \<Rightarrow> h | Inr h' \<Rightarrow> h')"
| "step Start h =
     (case start (transcriber h) of Inl e \<Rightarrow> h | Inr t \<Rightarrow> h\<lparr>transcriber := t\<rparr>)"
| "step Stop h = h\<lparr>transcriber := stop (transcriber h)\<rparr>"
| "step (Transcribe d) h = h\<lparr>transcriber := transcribe d (transcriber h)\<rparr>"
| "step RunBegin h = h\<lparr>transcriber := run_begin (transcriber h)\<rparr>"
| "step (Connect channel) h = h\<lparr>transcriber := run_connect channel (transcriber h)\<rparr>"
| "step (Response resp) h =
     (if thread (transcriber h) \<noteq> Handling then h
      else case handle_response resp h of
        (h', None) \<Rightarrow> h'
      | (h', Some e) \<Rightarrow> h'\<lparr>transcriber := run_finally (Some e) (transcriber h')\<rparr>)"
| "step StreamEnd h =
     (if thread (transcriber h) \<noteq> Handling then h
      else h\<lparr>transcriber := run_finally None (transcriber h)\<rparr>)"
| "step Pull h = pull h"
| "step GenClose h = gen_close h"

fun exec :: "event list \<Rightarrow> SpeechHandler \<Rightarrow> SpeechHandler" where
  "exec [] h = h"
| "exec (e # es) h = exec es (step e h)"



text \<open>The guard of \<open>start\<close> keeps this: a started thread has \<open>_thread_started\<close> set.\<close>

definition guarded :: "Transcriber \<Rightarrow> bool" where
  "guarded t = (thread t = Unstarted \<or> thread_started t)"

section \<open>The registry of clients\<close>

text \<open>
  The module-level state of \<open>server.py\<close>: the dictionary \<open>_clients\<close>, the counter
  \<open>_id_counter\<close> (\<open>itertools.count()\<close>, read as its next value), and the handler
  objects created so far, a handler being referred to by its position in \<open>handlers\<close>.
  \<open>_clients\<close> maps an id to the handler stored under it.
\<close>

record server =
  clients :: "nat \<rightharpoonup> nat"
  id_counter :: nat
  handlers :: "SpeechHandler list"

definition server_init :: server where
  "server_init = \<lparr>clients = Map.empty, id_counter = 0, handlers = []\<rparr>"

text \<open>\<open>SpeechHandler.__init__\<close>: the new handler takes the next value of the counter.\<close>

definition handler_new :: "bool \<Rightarrow> server \<Rightarrow> server" where
  "handler_new loc s =
     s\<lparr>handlers := handlers s @ [SpeechHandler_init (id_counter s) loc],
       id_counter := Suc (id_counter s)\<rparr>"

text \<open>\<open>SpeechHandler.open\<close> of the handler at position \<open>a\<close>.\<close>

definition open_conn :: "nat \<Rightarrow> server \<Rightarrow> server" where
  "open_conn a s =
     (let i = hid (handlers s ! a)
      in if clients s i = None then s\<lparr>clients := (clients s)(i \<mapsto> a)\<rparr> else s)"

text \<open>\<open>SpeechHandler.on_close\<close> of the handler at position \<open>a\<close>.\<close>

definition on_close :: "nat \<Rightarrow> server \<Rightarrow> server" where
  "on_close a s =
     (let h = handlers s ! a;
          s' = s\<lparr>handlers := (handlers s)[a := h\<lparr>transcriber := stop (transcriber h)\<rparr>]\<rparr>
      in if clients s' (hid h) \<noteq> None then s'\<lparr>clients := (clients s')(hid h := None)\<rparr> else s')"

text \<open>
  What happens to connections: a handler is created for a request (on the local host
  or not), the websocket of a handler is opened, the connection of a handler is closed.
  An event for a handler that does not exist is no event.
\<close>

datatype conn_event = New bool | Open nat | Closed nat

fun serve1 :: "conn_event \<Rightarrow> server \<Rightarrow> server" where
  "serve1 (New loc) s = handler_new loc s"
| "serve1 (Open a) s = (if a < length (handlers s) then open_conn a s else s)"
| "serve1 (Closed a) s = (if a < length (handlers s) then on_close a s else s)"

fun serve :: "conn_event list \<Rightarrow> server \<Rightarrow> server" where
  "serve [] s = s"
| "serve (e # es) s = serve es (serve1 e s)"

section \<open>Notions used in the statements\<close>

text \<open>The messages a result is relayed as: one, or none when its text is empty.\<close>

fun message_of :: "api_result \<Rightarrow> pyval list" where
  "message_of (Result [] fin) = []"
| "message_of (Result (a # alts) fin) =
     (if a \<noteq> [] then [PDict [(''text'', PStr a), (''isFinal'', PBool fin)]] else [])"

fun has_alternative :: "api_result \<Rightarrow> bool" where
  "has_alternative (Result alts fin) = (alts \<noteq> [])"

text \<open>
  What the claim on configuration messages says a field holds after a message with the
  items \<open>kvs\<close>: the value given under its name, unless there is none or it is
  \<open>null\<close>.
\<close>

definition field_after :: "(string \<times> pyval) list \<Rightarrow> string \<Rightarrow> pyval \<Rightarrow> pyval" where
  "field_after kvs name old =
     (case map_of kvs name of None \<Rightarrow> old | Some v \<Rightarrow> if v = PNone then old else v)"

text \<open>\<open>n\<close> calls of \<open>start\<close> in a row.\<close>

fun start_times :: "nat \<Rightarrow> Transcriber \<Rightarrow> error + Transcriber" where
  "start_times 0 t = Inr t"
| "start_times (Suc n) t = (case start t of Inl e \<Rightarrow> Inl e | Inr t' \<Rightarrow> start_times n t')"

text \<open>The thread was started at most once, and only through \<open>start\<close>.\<close>

definition spawned_once :: "Transcriber \<Rightarrow> bool" where
  "spawned_once t =
     (if thread t = Unstarted then spawns t = 0 else thread_started t \<and> spawns t = 1)"

text \<open>
  The streaming call was opened at most once, by the thread on its way into
  \<open>_handle_results\<close>; and a call of \<open>start\<close> made before any \<open>stop\<close> has
  started the thread.
\<close>

definition opened_once :: "Transcriber \<Rightarrow> bool" where
  "opened_once t =
     (case thread t of
        Handling \<Rightarrow> calls_opened t = 1
      | Finished x \<Rightarrow> calls_opened t \<le> 1
      | _ \<Rightarrow> calls_opened t = 0)"

definition start_took :: "Transcriber \<Rightarrow> bool" where
  "start_took t = (if thread_started t \<and> \<not> stop_event t then thread t \<noteq> Unstarted else True)"

text \<open>
  The number of frames the generator may still yield once the stop event is set: one if
  it is past the test of its loop, none otherwise.
\<close>

definition owed :: "Transcriber \<Rightarrow> nat" where
  "owed t = (if stream t = Reading then 1 else 0)"

text \<open>
  The timeout check cannot fire, now or later: \<open>_start_time\<close> is unset or
  \<open>is_started\<close> is false, and the thread is past the statement that sets
  \<open>is_started\<close>.
\<close>

definition unarmed :: "SpeechHandler \<Rightarrow> bool" where
  "unarmed h =
     ((start_time h = None \<or> \<not> is_started (transcriber h))
      \<and> thread (transcriber h) \<noteq> Unstarted \<and> thread (transcriber h) \<noteq> Ready
      \<and> thread (transcriber h) \<noteq> Connecting)"




text \<open>
  The number of handlers a sequence of events creates. The handler \<open>a\<close> is open
  after a sequence of events when the sequence holds an opening of \<open>a\<close>, at which
  \<open>a\<close> existed, with no closing of \<open>a\<close> after it.
\<close>

fun created :: "conn_event list \<Rightarrow> nat" where
  "created [] = 0"
| "created (New loc # es) = Suc (created es)"
| "created (e # es) = created es"

definition open_now :: "conn_event list \<Rightarrow> nat \<Rightarrow> bool" where
  "open_now es a =
     (\<exists>pre post. es = pre @ Open a # post \<and> a < created pre \<and> Closed a \<notin> set post)"

text \<open>What the registry keeps, after the events \<open>es\<close>.\<close>

definition registry_ok :: "conn_event list \<Rightarrow> server \<Rightarrow> bool" where
  "registry_ok es s =
     (length (handlers s) = created es \<and> id_counter s = created es
      \<and> (\<forall>a < length (handlers s). hid (handlers s ! a) = a)
      \<and> (\<forall>i a. clients s i = Some a \<longleftrightarrow> i = a \<and> open_now es a))"

section \<open>Basic facts\<close>

lemmas transcriber_defs = transcribe_def read_def exit_stream_def Thread_start_def start_def
  stop_def run_begin_def run_connect_def run_finally_def

lemma start_no_error: "guarded t \<Longrightarrow> \<exists>t'. start t = Inr t' \<and> guarded t'"
  by (auto simp: guarded_def start_def Thread_start_def Let_def)

section \<open>Relaying results\<close>

lemma for_results_written:
  "\<forall>r \<in> set rs. has_alternative r \<Longrightarrow>
   for_results rs h = (h\<lparr>written := written h @ concat (map message_of rs)\<rparr>, None)"
  by (induction rs h rule: for_results.induct) (simp_all add: on_transcribed_def)

text \<open>
  Claim C2, as stated: every result event is relayed as one message. It fails for a
  result whose text is empty: \<open>on_transcribed\<close> tests \<open>result.text\<close> and writes
  nothing.
\<close>

theorem empty_text_not_relayed:
  "written (fst (handle_results
      [\<lparr>error_code = OK, error_message = '''', results = [Result [''''] True]\<rparr>]
      (SpeechHandler_init 0 False))) = []"
  by (simp add: handle_response_def on_transcribed_def SpeechHandler_init_def)

text \<open>
  Claim C2, amended: for every sequence of responses without an error code, each result
  of which has an alternative, \<open>_handle_results\<close> returns normally and the handler has
  written exactly one message \<open>{"text", "isFinal"}\<close> for each result whose text is not
  empty, in the order in which the results arrived, and nothing else.
\<close>

theorem result_relay:
  "\<forall>resp \<in> set rs. error_code resp = OK \<and> (\<forall>r \<in> set (results resp). has_alternative r) \<Longrightarrow>
   handle_results rs h =
     (h\<lparr>written := written h @ concat (map message_of (concat (map results rs)))\<rparr>, None)"
  by (induction rs arbitrary: h) (simp_all add: handle_response_def for_results_written)

theorem result_relay_witness:
  "handle_results
     [\<lparr>error_code = OK, error_message = '''', results = [Result [''hi''] False]\<rparr>,
      \<lparr>error_code = OK, error_message = '''', results = [Result [''hi there''] True]\<rparr>]
     (SpeechHandler_init 0 False)
   = ((SpeechHandler_init 0 False)
        \<lparr>written := [PDict [(''text'', PStr ''hi''), (''isFinal'', PBool False)],
                     PDict [(''text'', PStr ''hi there''), (''isFinal'', PBool True)]]\<rparr>, None)"
  using result_relay [of
     "[\<lparr>error_code = OK, error_message = '''', results = [Result [''hi''] False]\<rparr>,
       \<lparr>error_code = OK, error_message = '''', results = [Result [''hi there''] True]\<rparr>]"
     "SpeechHandler_init 0 False"]
  by (simp add: SpeechHandler_init_def)

section \<open>The timeout check\<close>

text \<open>
  Claim C4: a frame that arrives 59 seconds after the first one is processed, one that
  arrives after 61 seconds closes the session. In the code the first frame, at clock
  reading 1000, sets \<open>_start_time\<close>; once the thread has connected, the check of the
  next message subtracts two floats and calls \<open>total_seconds\<close> on the difference, so
  \<open>on_message\<close> raises at 1059 and at 1061 alike, and neither processes the frame nor
  closes the session.
\<close>

theorem timeout_check_raises:
  "on_message 1059 (Binary ''abc'')
     (exec [Message 1000 (Binary ''abc''), RunBegin, Connect None] (SpeechHandler_init 0 False))
     = Inl AttributeError
   \<and> on_message 1061 (Binary ''abc'')
     (exec [Message 1000 (Binary ''abc''), RunBegin, Connect None] (SpeechHandler_init 0 False))
     = Inl AttributeError"
  by (simp add: on_message_def check_timeout_def total_seconds_def SpeechHandler_init_def
      Transcriber_init_def transcriber_defs Let_def)

section \<open>Configuration\<close>

lemma contains_dict: "py_contains name (PDict kvs) = Inr (map_of kvs name \<noteq> None)"
  by (simp add: map_of_eq_None_iff)

lemma set_config_dict:
  "set_config [''rate'', ''language'', ''encoding'', ''punctuation''] (PDict kvs) t =
     Inr (t\<lparr>rate := field_after kvs ''rate'' (rate t),
            language := field_after kvs ''language'' (language t),
            encoding := field_after kvs ''encoding'' (encoding t),
            punctuation := field_after kvs ''punctuation'' (punctuation t)\<rparr>)"
  by (cases "map_of kvs ''rate''"; cases "map_of kvs ''language''";
      cases "map_of kvs ''encoding''"; cases "map_of kvs ''punctuation''")
     (simp_all add: map_of_eq_None_iff[symmetric] field_after_def setattr_def contains_dict
        del: py_contains.simps(1))

lemma start_config:
  "guarded t \<Longrightarrow> \<exists>t'. start t = Inr t' \<and> rate t' = rate t \<and> language t' = language t
     \<and> encoding t' = encoding t \<and> punctuation t' = punctuation t
     \<and> interim_results t' = interim_results t \<and> timeout_secs t' = timeout_secs t"
  by (auto simp: guarded_def start_def Thread_start_def Let_def)

text \<open>
  Claim C8: a new session has the sample rate 44100, the encoding \<open>LINEAR16\<close>, the
  language \<open>en-US\<close>, punctuation and interim results on, and the timeout of the server
  is 60 seconds. A leading text message that is a JSON object (no binary frame has set
  \<open>_start_time\<close> yet) is accepted, and sets each of \<open>rate\<close>, \<open>language\<close>,
  \<open>encoding\<close> and \<open>punctuation\<close> to the value the object gives it, and leaves it as
  it is when the object has no such key or gives \<open>null\<close>; the other settings are
  not changed.
\<close>

theorem configuration:
  "rate (transcriber (SpeechHandler_init i loc)) = PInt 44100
   \<and> encoding (transcriber (SpeechHandler_init i loc)) = PEncoding LINEAR16
   \<and> language (transcriber (SpeechHandler_init i loc)) = PStr ''en-US''
   \<and> punctuation (transcriber (SpeechHandler_init i loc)) = PBool True
   \<and> interim_results (transcriber (SpeechHandler_init i loc)) = True
   \<and> TIMEOUT = 60
   \<and> (start_time h = None \<and> guarded (transcriber h) \<longrightarrow>
        (\<exists>h'. on_message now (Text (Some (PDict kvs))) h = Inr h'
           \<and> rate (transcriber h') = field_after kvs ''rate'' (rate (transcriber h))
           \<and> language (transcriber h') = field_after kvs ''language'' (language (transcriber h))
           \<and> encoding (transcriber h') = field_after kvs ''encoding'' (encoding (transcriber h))
           \<and> punctuation (transcriber h')
               = field_after kvs ''punctuation'' (punctuation (transcriber h))
           \<and> interim_results (transcriber h') = interim_results (transcriber h)
           \<and> timeout_secs (transcriber h') = timeout_secs (transcriber h)))"
proof -
  have upd: "\<exists>h'. on_message now (Text (Some (PDict kvs))) h = Inr h'
           \<and> rate (transcriber h') = field_after kvs ''rate'' (rate (transcriber h))
           \<and> language (transcriber h') = field_after kvs ''language'' (language (transcriber h))
           \<and> encoding (transcriber h') = field_after kvs ''encoding'' (encoding (transcriber h))
           \<and> punctuation (transcriber h')
               = field_after kvs ''punctuation'' (punctuation (transcriber h))
           \<and> interim_results (transcriber h') = interim_results (transcriber h)
           \<and> timeout_secs (transcriber h') = timeout_secs (transcriber h)"
    if st: "start_time h = None" and g: "guarded (transcriber h)"
  proof -
    let ?t = "(transcriber h)\<lparr>rate := field_after kvs ''rate'' (rate (transcriber h)),
            language := field_after kvs ''language'' (language (transcriber h)),
            encoding := field_after kvs ''encoding'' (encoding (transcriber h)),
            punctuation := field_after kvs ''punctuation'' (punctuation (transcriber h))\<rparr>"
    have "guarded ?t" using g by (simp add: guarded_def)
    from start_config [OF this] obtain t' where t': "start ?t = Inr t'"
      "rate t' = rate ?t" "language t' = language ?t" "encoding t' = encoding ?t"
      "punctuation t' = punctuation ?t" "interim_results t' = interim_results ?t"
      "timeout_secs t' = timeout_secs ?t" by blast
    have "on_message now (Text (Some (PDict kvs))) h = Inr (h\<lparr>transcriber := t'\<rparr>)"
      using st t'(1)
      by (simp add: on_message_def check_timeout_def set_config_dict del: set_config.simps)
    then show ?thesis using t' by simp
  qed
  show ?thesis using upd
    by (simp add: SpeechHandler_init_def Transcriber_init_def TIMEOUT_def)
qed

theorem configuration_witness:
  "on_message 5 (Text (Some (PDict [(''rate'', PInt 16000), (''language'', PNone)])))
      (SpeechHandler_init 0 False) =
   Inr ((SpeechHandler_init 0 False)\<lparr>transcriber := Transcriber_init
       \<lparr>rate := PInt 16000, thread_started := True, thread := Ready, spawns := 1\<rparr>\<rparr>)"
  using configuration [of 0 False "SpeechHandler_init 0 False" 5
      "[(''rate'', PInt 16000), (''language'', PNone)]"]
  by (simp add: SpeechHandler_init_def Transcriber_init_def guarded_def on_message_def
      check_timeout_def setattr_def start_def Thread_start_def Let_def)

section \<open>Calls of start\<close>

lemma start_started: "thread_started t \<Longrightarrow> start t = Inr t"
  by (simp add: start_def)

lemma start_times_started: "thread_started t \<Longrightarrow> start_times n t = Inr t"
  by (induction n) (simp_all add: start_started)

lemma start_first: "thread t = Unstarted \<Longrightarrow> \<not> thread_started t \<Longrightarrow> \<not> stop_event t \<Longrightarrow>
  start t = Inr (t\<lparr>thread_started := True, thread := Ready, spawns := Suc (spawns t)\<rparr>)"
  by (simp add: start_def Thread_start_def Let_def)

section \<open>The steps of a session\<close>

lemma check_timeout_cases:
  "check_timeout now h = Inl AttributeError \<or> check_timeout now h = Inr False"
  by (simp add: check_timeout_def total_seconds_def split: option.splits)

lemma on_message_cases:
  assumes "on_message now m h = Inr h'"
  obtains (config) j t t' where "m = Text (Some j)"
      "set_config [''rate'', ''language'', ''encoding'', ''punctuation''] j (transcriber h) = Inr t"
      "start t = Inr t'" "h' = h\<lparr>transcriber := t'\<rparr>"
    | (first) d t' where "m = Binary d" "\<not> is_started (transcriber h)"
      "start (transcriber h) = Inr t'"
      "h' = h\<lparr>start_time := Some now, transcriber := transcribe d t'\<rparr>"
    | (frame) d where "m = Binary d" "is_started (transcriber h)"
      "h' = h\<lparr>transcriber := transcribe d (transcriber h)\<rparr>"
proof -
  have c: "check_timeout now h = Inr False"
    using assms check_timeout_cases [of now h] by (auto simp: on_message_def)
  show ?thesis
  proof (cases m)
    case (Text j)
    then show ?thesis using assms c config
      by (auto simp: on_message_def split: option.splits sum.splits simp del: set_config.simps)
  next
    case (Binary d)
    then show ?thesis using assms c first frame
      by (auto simp: on_message_def split: sum.splits if_splits)
  qed
qed

lemma on_transcribed_tr [simp]: "transcriber (on_transcribed r h) = transcriber h"
  by (simp add: on_transcribed_def)

lemma on_transcribing_tr [simp]: "transcriber (on_transcribing r h) = transcriber h"
  by (simp add: on_transcribing_def)

lemma for_results_tr [simp]: "transcriber (fst (for_results rs h)) = transcriber h"
  by (induction rs h rule: for_results.induct) simp_all

lemma setattr_ctl [simp]:
  "thread (setattr n v t) = thread t" "thread_started (setattr n v t) = thread_started t"
  "spawns (setattr n v t) = spawns t" "stop_event (setattr n v t) = stop_event t"
  "is_started (setattr n v t) = is_started t" "queue (setattr n v t) = queue t"
  "stream (setattr n v t) = stream t" "requests (setattr n v t) = requests t"
  "calls_opened (setattr n v t) = calls_opened t"
  by (simp_all add: setattr_def)

lemma set_config_ctl:
  "set_config ns d t = Inr t' \<Longrightarrow>
     thread t' = thread t \<and> thread_started t' = thread_started t \<and> spawns t' = spawns t
     \<and> stop_event t' = stop_event t \<and> is_started t' = is_started t \<and> queue t' = queue t
     \<and> stream t' = stream t \<and> requests t' = requests t
     \<and> calls_opened t' = calls_opened t"
  by (induction ns d t rule: set_config.induct) (auto split: sum.splits bool.splits if_splits)

lemma start_cases:
  assumes "start t = Inr t'"
  obtains (again) "thread_started t" "t' = t"
    | (stopped) "\<not> thread_started t" "stop_event t" "t' = t\<lparr>thread_started := True\<rparr>"
    | (spawn) "\<not> thread_started t" "\<not> stop_event t" "thread t = Unstarted"
        "t' = t\<lparr>thread_started := True, thread := Ready, spawns := Suc (spawns t)\<rparr>"
  using assms by (auto simp: start_def Thread_start_def Let_def split: if_splits)

lemma handle_response_tr:
  "transcriber (fst (handle_response r h)) =
     (if error_code r \<noteq> OK then stop (transcriber h) else transcriber h)"
  by (simp add: handle_response_def)

text \<open>The transcriber after a step, when the step is a message.\<close>

lemma message_transcriber:
  assumes "on_message now m h = Inr h'"
  obtains t t' where "thread t = thread (transcriber h)"
    "thread_started t = thread_started (transcriber h)" "spawns t = spawns (transcriber h)"
    "stop_event t = stop_event (transcriber h)" "is_started t = is_started (transcriber h)"
    "queue t = queue (transcriber h)" "stream t = stream (transcriber h)"
    "requests t = requests (transcriber h)"
    "start t = Inr t' \<or> t' = t"
    "transcriber h' = t' \<or> (\<exists>d. m = Binary d \<and> transcriber h' = transcribe d t')"
    "calls_opened t = calls_opened (transcriber h)"
  using assms
proof (cases rule: on_message_cases)
  case (config j t t')
  then show ?thesis using that [of t t'] set_config_ctl [OF config(2)] by simp
next
  case (first d t')
  then show ?thesis using that [of "transcriber h" t'] by auto
next
  case (frame d)
  then show ?thesis using that [of "transcriber h" "transcriber h"] by auto
qed

lemma step_transcriber:
  obtains (same) "transcriber (step e h) = transcriber h"
  | (msg) t t' where "thread t = thread (transcriber h)"
    "thread_started t = thread_started (transcriber h)" "spawns t = spawns (transcriber h)"
    "stop_event t = stop_event (transcriber h)" "is_started t = is_started (transcriber h)"
    "queue t = queue (transcriber h)" "stream t = stream (transcriber h)"
    "requests t = requests (transcriber h)"
    "start t = Inr t' \<or> t' = t"
    "transcriber (step e h) = t' \<or> (\<exists>d. transcriber (step e h) = transcribe d t')"
    "calls_opened t = calls_opened (transcriber h)"
  | (stop) "transcriber (step e h) = stop (transcriber h)"
  | (rbegin) "transcriber (step e h) = run_begin (transcriber h)"
  | (connect) c where "transcriber (step e h) = run_connect c (transcriber h)"
  | (rfinally) x where "thread (transcriber h) = Handling"
       "transcriber (step e h) = run_finally x (transcriber h)"
  | (pull) "e = Pull" "transcriber (step e h) = transcriber (pull h)"
  | (close) "e = GenClose" "transcriber (step e h) = transcriber (gen_close h)"
proof (cases e)
  case (Message now m)
  show ?thesis
  proof (cases "on_message now m h")
    case (Inl x) then show ?thesis using Message same by simp
  next
    case (Inr h')
    show ?thesis using Inr
    proof (cases rule: message_transcriber)
      case (1 t t')
      then show ?thesis using msg [of t t'] Message Inr by auto
    qed
  qed
next
  case Start
  show ?thesis
  proof (cases "start (transcriber h)")
    case (Inl x) then show ?thesis using Start same by simp
  next
    case (Inr t') then show ?thesis using Start msg [of "transcriber h" t'] by simp
  qed
next
  case Stop then show ?thesis using stop by simp
next
  case (Transcribe d) then show ?thesis using msg [of "transcriber h" "transcriber h"] by auto
next
  case RunBegin then show ?thesis using rbegin by simp
next
  case (Connect c) then show ?thesis using connect by simp
next
  case (Response r)
  show ?thesis
  proof (cases "thread (transcriber h) = Handling")
    case False then show ?thesis using Response same by simp
  next
    case True
    show ?thesis
    proof (cases "handle_response r h")
      case (Pair h' x)
      have tr: "transcriber h' = (if error_code r \<noteq> OK then stop (transcriber h) else transcriber h)"
        using handle_response_tr [of r h] Pair by simp
      show ?thesis
      proof (cases x)
        case None
        then have "error_code r = OK" using Pair by (auto simp: handle_response_def split: if_splits)
        then show ?thesis using same Response True Pair None tr by simp
      next
        case (Some ex)
        have "run_finally x (stop t) = run_finally x t" for x t
          by (simp add: run_finally_def stop_def)
        then have "transcriber (step e h) = run_finally (Some ex) (transcriber h)"
          using Response True Pair Some tr by simp
        then show ?thesis using rfinally True by blast
      qed
    qed
  qed
next
  case StreamEnd
  show ?thesis
  proof (cases "thread (transcriber h) = Handling")
    case False then show ?thesis using StreamEnd same by simp
  next
    case True then show ?thesis using StreamEnd rfinally [of None] by simp
  qed
next
  case Pull then show ?thesis using pull by simp
next
  case GenClose then show ?thesis using close by simp
qed

lemmas worker_defs = stop_def run_begin_def run_connect_def run_finally_def pull_def
  gen_close_def request_stream_test_def request_stream_body_def read_def exit_stream_def Let_def

lemma step_spawned_once:
  "spawned_once (transcriber h) \<Longrightarrow> spawned_once (transcriber (step e h))"
proof (cases e h rule: step_transcriber)
  case (msg t t')
  assume "spawned_once (transcriber h)"
  then have "spawned_once t" using msg by (simp add: spawned_once_def)
  then have "spawned_once t'" using msg(9)
    by (auto elim!: start_cases simp: spawned_once_def)
  then show ?thesis using msg(10) by (auto simp: spawned_once_def transcribe_def)
qed (auto simp: spawned_once_def worker_defs
      split: option.splits stream_pc.splits list.splits if_splits)

lemma exec_spawned_once:
  "spawned_once (transcriber h) \<Longrightarrow> spawned_once (transcriber (exec es h))"
  by (induction es arbitrary: h) (simp_all add: step_spawned_once)

lemma step_stop_event:
  "stop_event (transcriber h) \<Longrightarrow> stop_event (transcriber (step e h))"
proof (cases e h rule: step_transcriber)
  case (msg t t')
  assume "stop_event (transcriber h)"
  then have "stop_event t'" using msg(4,9) by (auto elim!: start_cases)
  then show ?thesis using msg(10) by (auto simp: transcribe_def)
qed (auto simp: worker_defs split: option.splits stream_pc.splits list.splits if_splits)

lemma exec_stop_event:
  "stop_event (transcriber h) \<Longrightarrow> stop_event (transcriber (exec es h))"
  by (induction es arbitrary: h) (simp_all add: step_stop_event)

lemma step_owed:
  assumes "stop_event (transcriber h)"
  shows "\<exists>ds. requests (transcriber (step e h)) = requests (transcriber h) @ ds
           \<and> length ds + owed (transcriber (step e h)) \<le> owed (transcriber h)"
proof (cases e h rule: step_transcriber)
  case (msg t t')
  have "requests t' = requests t \<and> stream t' = stream t"
    using msg(9) by (auto elim!: start_cases)
  then show ?thesis using msg(7,8,10) by (auto simp: transcribe_def owed_def)
qed (use assms in \<open>auto simp: owed_def worker_defs
      split: option.splits stream_pc.splits list.splits if_splits\<close>)

lemma exec_owed:
  "stop_event (transcriber h) \<Longrightarrow>
   \<exists>ds. requests (transcriber (exec es h)) = requests (transcriber h) @ ds
        \<and> length ds + owed (transcriber (exec es h)) \<le> owed (transcriber h)"
proof (induction es arbitrary: h)
  case Nil
  then show ?case by simp
next
  case (Cons e es)
  from step_owed [OF Cons.prems, of e] obtain ds where
    ds: "requests (transcriber (step e h)) = requests (transcriber h) @ ds"
      "length ds + owed (transcriber (step e h)) \<le> owed (transcriber h)" by blast
  from Cons.IH [OF step_stop_event [OF Cons.prems, of e]] obtain ds' where
    ds': "requests (transcriber (exec es (step e h))) = requests (transcriber (step e h)) @ ds'"
      "length ds' + owed (transcriber (exec es (step e h))) \<le> owed (transcriber (step e h))"
    by blast
  show ?case using ds ds' by (intro exI [of _ "ds @ ds'"]) simp
qed

section \<open>Starting once\<close>

lemma spawned_once_init: "spawned_once (transcriber (SpeechHandler_init i loc))"
  by (simp add: spawned_once_def SpeechHandler_init_def Transcriber_init_def)

lemma spawned_once_guarded: "spawned_once t \<Longrightarrow> guarded t"
  by (auto simp: spawned_once_def guarded_def split: if_splits)

lemma spawned_once_le: "spawned_once t \<Longrightarrow> spawns t \<le> 1"
  by (auto simp: spawned_once_def split: if_splits)

lemma step_opened_once:
  assumes "opened_once (transcriber h)"
  shows "opened_once (transcriber (step e h))"
proof (cases e h rule: step_transcriber)
  case (msg t t')
  have "opened_once t" using assms msg(1,11)
    by (auto simp: opened_once_def split: thread_pc.splits)
  then have "opened_once t'" using msg(9)
    by (auto elim!: start_cases simp: opened_once_def split: thread_pc.splits)
  then show ?thesis using msg(10)
    by (auto simp: opened_once_def transcribe_def split: thread_pc.splits)
qed (use assms in \<open>auto simp: opened_once_def worker_defs
      split: option.splits stream_pc.splits list.splits if_splits thread_pc.splits\<close>)

lemma exec_opened_once:
  "opened_once (transcriber h) \<Longrightarrow> opened_once (transcriber (exec es h))"
  by (induction es arbitrary: h) (simp_all add: step_opened_once)

lemma opened_once_init: "opened_once (transcriber (SpeechHandler_init i loc))"
  by (simp add: opened_once_def SpeechHandler_init_def Transcriber_init_def)

lemma opened_once_le: "opened_once t \<Longrightarrow> calls_opened t \<le> 1"
  by (auto simp: opened_once_def split: thread_pc.splits)

lemma step_start_took: "start_took (transcriber h) \<Longrightarrow> start_took (transcriber (step e h))"
proof (cases e h rule: step_transcriber)
  case (msg t t')
  assume "start_took (transcriber h)"
  then have "start_took t" using msg by (simp add: start_took_def)
  then have "start_took t'" using msg(9)
    by (auto elim!: start_cases simp: start_took_def split: if_splits)
  then show ?thesis using msg(10) by (auto simp: start_took_def transcribe_def)
qed (auto simp: start_took_def worker_defs
      split: option.splits stream_pc.splits list.splits if_splits)

lemma exec_start_took: "start_took (transcriber h) \<Longrightarrow> start_took (transcriber (exec es h))"
  by (induction es arbitrary: h) (simp_all add: step_start_took)

lemma step_thread_started:
  "thread (transcriber h) \<noteq> Unstarted \<Longrightarrow> thread (transcriber (step e h)) \<noteq> Unstarted"
proof (cases e h rule: step_transcriber)
  case (msg t t')
  assume "thread (transcriber h) \<noteq> Unstarted"
  then have "thread t' \<noteq> Unstarted" using msg(1,9) by (auto elim!: start_cases)
  then show ?thesis using msg(10) by (auto simp: transcribe_def)
qed (auto simp: worker_defs split: option.splits stream_pc.splits list.splits if_splits)

lemma exec_thread_started:
  "thread (transcriber h) \<noteq> Unstarted \<Longrightarrow> thread (transcriber (exec es h)) \<noteq> Unstarted"
  by (induction es arbitrary: h) (simp_all add: step_thread_started)

lemma exec_append: "exec (es @ fs) h = exec fs (exec es h)"
  by (induction es arbitrary: h) simp_all

lemma step_calls_opened:
  "calls_opened (transcriber h) \<le> calls_opened (transcriber (step e h))"
proof (cases e h rule: step_transcriber)
  case (msg t t')
  have "calls_opened t' = calls_opened t" using msg(9) by (auto elim!: start_cases)
  then show ?thesis using msg(10,11) by (auto simp: transcribe_def)
qed (auto simp: worker_defs split: option.splits stream_pc.splits list.splits if_splits)

lemma exec_calls_opened:
  "calls_opened (transcriber h) \<le> calls_opened (transcriber (exec es h))"
proof (induction es arbitrary: h)
  case Nil
  show ?case by simp
next
  case (Cons e es)
  show ?case using step_calls_opened [of h e] Cons [of "step e h"] by simp
qed

lemma start_before_stop:
  assumes "spawned_once (transcriber h)" "start_took (transcriber h)"
    "\<not> stop_event (transcriber h)"
  shows "thread (transcriber (step Start h)) \<noteq> Unstarted"
proof -
  from start_no_error [OF spawned_once_guarded [OF assms(1)]]
  obtain t' where t': "start (transcriber h) = Inr t'" by blast
  then show ?thesis using assms(2,3)
    by (auto elim!: start_cases simp: start_took_def)
qed

text \<open>
  Claim C5. A call of \<open>start\<close> on a transcriber whose \<open>_thread_started\<close> is set
  does nothing and raises nothing, and any number of calls in a row on a new transcriber
  leaves what the first call left: one started thread. In every execution of a new
  session, whatever the calls of \<open>start\<close> and the other steps: \<open>start\<close> raises
  nothing; \<open>Thread.start\<close> was called at most once and the streaming call was opened
  at most once; after a call of \<open>start\<close> that found the stop event unset,
  \<open>Thread.start\<close> was called exactly once, however many calls follow; and while the
  thread handles responses, exactly one streaming call was opened, and it stays the only
  one whatever follows.
\<close>

theorem start_once:
  "(thread_started t \<longrightarrow> start t = Inr t)
   \<and> start_times (Suc n) Transcriber_init
        = Inr (Transcriber_init\<lparr>thread_started := True, thread := Ready, spawns := 1\<rparr>)
   \<and> (\<exists>t'. start (transcriber (exec es (SpeechHandler_init i loc))) = Inr t')
   \<and> spawns (transcriber (exec es (SpeechHandler_init i loc))) \<le> 1
   \<and> calls_opened (transcriber (exec es (SpeechHandler_init i loc))) \<le> 1
   \<and> (\<not> stop_event (transcriber (exec es (SpeechHandler_init i loc))) \<longrightarrow>
        spawns (transcriber (exec (es @ Start # fs) (SpeechHandler_init i loc))) = 1)
   \<and> (thread (transcriber (exec es (SpeechHandler_init i loc))) = Handling \<longrightarrow>
        spawns (transcriber (exec es (SpeechHandler_init i loc))) = 1
        \<and> calls_opened (transcriber (exec es (SpeechHandler_init i loc))) = 1
        \<and> calls_opened (transcriber (exec (es @ fs) (SpeechHandler_init i loc))) = 1)"
proof -
  let ?h = "exec es (SpeechHandler_init i loc)"
  have so: "spawned_once (transcriber ?h)"
    by (rule exec_spawned_once) (rule spawned_once_init)
  have oo: "opened_once (transcriber ?h)"
    by (rule exec_opened_once) (rule opened_once_init)
  have st: "start_took (transcriber ?h)"
    by (rule exec_start_took)
       (simp add: start_took_def SpeechHandler_init_def Transcriber_init_def)
  have 1: "start_times (Suc n) Transcriber_init
        = Inr (Transcriber_init\<lparr>thread_started := True, thread := Ready, spawns := 1\<rparr>)"
    by (simp add: start_first start_times_started Transcriber_init_def)
  have 2: "spawns (transcriber (exec (es @ Start # fs) (SpeechHandler_init i loc))) = 1"
    if "\<not> stop_event (transcriber ?h)"
  proof -
    have "thread (transcriber (exec fs (step Start ?h))) \<noteq> Unstarted"
      by (rule exec_thread_started) (rule start_before_stop [OF so st that])
    moreover have "spawned_once (transcriber (exec (es @ Start # fs) (SpeechHandler_init i loc)))"
      by (rule exec_spawned_once) (rule spawned_once_init)
    ultimately show ?thesis by (simp add: exec_append spawned_once_def)
  qed
  have 3: "spawns (transcriber ?h) = 1 \<and> calls_opened (transcriber ?h) = 1"
    if "thread (transcriber ?h) = Handling"
    using so oo that by (simp add: spawned_once_def opened_once_def split: thread_pc.splits)
  have 4: "calls_opened (transcriber (exec (es @ fs) (SpeechHandler_init i loc))) = 1"
    if "thread (transcriber ?h) = Handling"
  proof -
    have "opened_once (transcriber (exec (es @ fs) (SpeechHandler_init i loc)))"
      by (rule exec_opened_once) (rule opened_once_init)
    from opened_once_le [OF this] exec_calls_opened [of ?h fs] 3 [OF that]
    show ?thesis by (simp add: exec_append)
  qed
  show ?thesis
    using 1 2 3 4 start_no_error [OF spawned_once_guarded [OF so]] spawned_once_le [OF so]
      opened_once_le [OF oo]
    by (auto simp: start_started)
qed

theorem start_once_witness:
  "start (Transcriber_init\<lparr>thread_started := True, thread := Ready, spawns := 1\<rparr>)
      = Inr (Transcriber_init\<lparr>thread_started := True, thread := Ready, spawns := 1\<rparr>)
   \<and> start_times 3 Transcriber_init
      = Inr (Transcriber_init\<lparr>thread_started := True, thread := Ready, spawns := 1\<rparr>)
   \<and> spawns (transcriber (exec ([Message 1 (Binary ''a'')] @ Start # [Start, RunBegin, Start,
        Connect None, Start]) (SpeechHandler_init 0 False))) = 1
   \<and> thread (transcriber (exec [Start, Start, RunBegin, Start, Connect None, Start]
        (SpeechHandler_init 0 False))) = Handling
   \<and> calls_opened (transcriber (exec [Start, Start, RunBegin, Start, Connect None, Start]
        (SpeechHandler_init 0 False))) = 1"
  using start_once [of "Transcriber_init\<lparr>thread_started := True, thread := Ready, spawns := 1\<rparr>"
      2 "[Message 1 (Binary ''a'')]" 0 False "[Start, RunBegin, Start, Connect None, Start]"]
    start_once [of Transcriber_init 2 "[Start, Start, RunBegin, Start, Connect None, Start]"
      0 False "[]"]
  by (simp add: SpeechHandler_init_def Transcriber_init_def numeral_3_eq_3 on_message_def
      check_timeout_def start_def Thread_start_def worker_defs transcribe_def)

section \<open>An error from the service\<close>

lemma step_finished:
  "thread (transcriber h) = Finished x \<Longrightarrow> thread (transcriber (step e h)) = Finished x"
proof (cases e h rule: step_transcriber)
  case (msg t t')
  assume "thread (transcriber h) = Finished x"
  then have "thread t' = Finished x" using msg(1,9) by (auto elim!: start_cases)
  then show ?thesis using msg(10) by (auto simp: transcribe_def)
qed (auto simp: worker_defs split: option.splits stream_pc.splits list.splits if_splits)

lemma on_message_written: "on_message now m h = Inr h' \<Longrightarrow> written h' = written h"
  by (erule on_message_cases) simp_all

lemma step_written:
  "thread (transcriber h) \<noteq> Handling \<Longrightarrow> written (step e h) = written h"
  by (cases e)
     (auto simp: worker_defs on_transcribing_def dest: on_message_written
       split: sum.splits option.splits prod.splits stream_pc.splits list.splits if_splits)

lemma exec_finished:
  "thread (transcriber h) = Finished x \<Longrightarrow>
     thread (transcriber (exec es h)) = Finished x \<and> written (exec es h) = written h"
  by (induction es arbitrary: h) (simp_all add: step_finished step_written)

text \<open>
  Claim C3, amended: on a response with an error code other than \<open>OK\<close> the thread
  calls \<open>stop\<close> (the stop event is set and \<open>is_started\<close> is false) and \<open>run\<close>
  ends by raising \<open>RuntimeError\<close> with the message of the error; the handler is
  told nothing, then or later; and whatever steps follow, the generator yields at most
  one further request, and that only if it had passed the test of its loop before the
  stop: from its next test on it yields nothing, whatever the queue holds.
\<close>

theorem error_response:
  "thread (transcriber h) = Handling \<and> error_code resp \<noteq> OK \<longrightarrow>
     stop_event (transcriber (step (Response resp) h))
     \<and> \<not> is_started (transcriber (step (Response resp) h))
     \<and> thread (transcriber (step (Response resp) h))
         = Finished (Some (RuntimeError (''Speech API Error: '' @ error_message resp)))
     \<and> written (step (Response resp) h) = written h
     \<and> written (exec es (step (Response resp) h)) = written h
     \<and> thread (transcriber (exec es (step (Response resp) h)))
         = Finished (Some (RuntimeError (''Speech API Error: '' @ error_message resp)))
     \<and> (\<exists>ds. requests (transcriber (exec es (step (Response resp) h)))
                = requests (transcriber h) @ ds
             \<and> length ds \<le> (if stream (transcriber h) = Reading then 1 else 0))"
proof (intro impI, elim conjE)
  assume a: "thread (transcriber h) = Handling" "error_code resp \<noteq> OK"
  let ?h = "step (Response resp) h"
  have 1: "stop_event (transcriber ?h)" "\<not> is_started (transcriber ?h)"
    "thread (transcriber ?h)
      = Finished (Some (RuntimeError (''Speech API Error: '' @ error_message resp)))"
    "written ?h = written h" "requests (transcriber ?h) = requests (transcriber h)"
    "stream (transcriber ?h) = stream (transcriber h)"
    using a by (simp_all add: handle_response_def run_finally_def stop_def)
  from exec_owed [OF 1(1), of es] obtain ds where
    "requests (transcriber (exec es ?h)) = requests (transcriber ?h) @ ds"
    "length ds + owed (transcriber (exec es ?h)) \<le> owed (transcriber ?h)" by blast
  then have 2: "\<exists>ds. requests (transcriber (exec es ?h)) = requests (transcriber h) @ ds
             \<and> length ds \<le> (if stream (transcriber h) = Reading then 1 else 0)"
    using 1(5,6) by (intro exI [of _ ds]) (simp add: owed_def split: if_splits)
  show "stop_event (transcriber ?h) \<and> \<not> is_started (transcriber ?h)
     \<and> thread (transcriber ?h)
         = Finished (Some (RuntimeError (''Speech API Error: '' @ error_message resp)))
     \<and> written ?h = written h
     \<and> written (exec es ?h) = written h
     \<and> thread (transcriber (exec es ?h))
         = Finished (Some (RuntimeError (''Speech API Error: '' @ error_message resp)))
     \<and> (\<exists>ds. requests (transcriber (exec es ?h)) = requests (transcriber h) @ ds
             \<and> length ds \<le> (if stream (transcriber h) = Reading then 1 else 0))"
    using 1 2 exec_finished [OF 1(3), of es] by simp
qed

text \<open>
  Claim C3, as stated: the failure reaches the session as one error event and is not an
  exception that leaves the thread, and no buffered frame is forwarded after it. After
  an error \<open>CANCELLED\<close> (code 1) with message \<open>x\<close>, \<open>run\<close> has raised
  \<open>RuntimeError\<close> and nothing was written to the client: the transcriber has no
  callback for errors. And the generator, which had passed the test of its loop when the
  error arrived, then yields the frame that was waiting in the queue.
\<close>

theorem error_raised_not_reported:
  "thread (transcriber (step (Response \<lparr>error_code = 1, error_message = ''x'', results = []\<rparr>)
      (exec [Start, RunBegin, Connect None, Transcribe ''a'', Pull, Pull]
         (SpeechHandler_init 0 False))))
     = Finished (Some (RuntimeError ''Speech API Error: x''))
   \<and> written (step (Response \<lparr>error_code = 1, error_message = ''x'', results = []\<rparr>)
      (exec [Start, RunBegin, Connect None, Transcribe ''a'', Pull, Pull]
         (SpeechHandler_init 0 False))) = []
   \<and> requests (transcriber (exec [Start, RunBegin, Connect None, Transcribe ''a'', Pull, Pull]
         (SpeechHandler_init 0 False))) = []
   \<and> requests (transcriber (step Pull
      (step (Response \<lparr>error_code = 1, error_message = ''x'', results = []\<rparr>)
      (exec [Start, RunBegin, Connect None, Transcribe ''a'', Pull, Pull]
         (SpeechHandler_init 0 False))))) = [''a'']"
  by (simp add: SpeechHandler_init_def Transcriber_init_def start_def Thread_start_def
      worker_defs handle_response_def OK_def transcribe_def on_transcribing_def)

theorem error_response_witness:
  "requests (transcriber (exec [Pull, Pull, Pull]
      (step (Response \<lparr>error_code = 1, error_message = ''x'', results = []\<rparr>)
      (exec [Start, RunBegin, Connect None, Transcribe ''a'', Transcribe ''b'', Pull, Pull,
             Pull] (SpeechHandler_init 0 False))))) = [''a'']
   \<and> queue (transcriber (exec [Pull, Pull, Pull]
      (step (Response \<lparr>error_code = 1, error_message = ''x'', results = []\<rparr>)
      (exec [Start, RunBegin, Connect None, Transcribe ''a'', Transcribe ''b'', Pull, Pull,
             Pull] (SpeechHandler_init 0 False))))) = []"
  using error_response [of
      "exec [Start, RunBegin, Connect None, Transcribe ''a'', Transcribe ''b'', Pull, Pull, Pull]
         (SpeechHandler_init 0 False)"
      "\<lparr>error_code = 1, error_message = ''x'', results = []\<rparr>" "[Pull, Pull, Pull]"]
  by (simp add: SpeechHandler_init_def Transcriber_init_def start_def Thread_start_def
      worker_defs handle_response_def OK_def transcribe_def on_transcribing_def)

section \<open>Stopping\<close>

lemma stop_idempotent: "stop (stop t) = stop t"
  by (simp add: stop_def)

lemma start_after_stop: "start (stop t) = Inr ((stop t)\<lparr>thread_started := True\<rparr>)"
  by (cases t) (simp add: start_def stop_def Let_def)

text \<open>
  Claim C6: once \<open>stop\<close> was called the session stays stopped, and the worker never
  connects or streams afterwards. A second \<open>stop\<close> changes nothing, no step clears
  the stop event, and \<open>start\<close> after \<open>stop\<close> starts no thread (the three lemmas
  \<open>stop_idempotent\<close>, \<open>exec_stop_event\<close> and \<open>start_after_stop\<close>); but
  \<open>run\<close> tests the stop event on entry only. Here the
  first frame starts the thread, the thread passes that test and is inside
  \<open>_create_channel\<close> when the connection is closed and \<open>stop\<close> is called: the stop
  event is set and \<open>is_started\<close> is false. The thread then goes on: it sets
  \<open>is_started\<close>, opens the streaming call and handles responses.
\<close>

theorem stop_during_connect:
  "stop_event (transcriber (exec [Message 1 (Binary ''a''), RunBegin, Stop]
      (SpeechHandler_init 0 False)))
   \<and> \<not> is_started (transcriber (exec [Message 1 (Binary ''a''), RunBegin, Stop]
      (SpeechHandler_init 0 False)))
   \<and> is_started (transcriber (exec [Message 1 (Binary ''a''), RunBegin, Stop, Connect None]
      (SpeechHandler_init 0 False)))
   \<and> thread (transcriber (exec [Message 1 (Binary ''a''), RunBegin, Stop, Connect None]
      (SpeechHandler_init 0 False))) = Handling
   \<and> calls_opened (transcriber (exec [Message 1 (Binary ''a''), RunBegin, Stop, Connect None]
      (SpeechHandler_init 0 False))) = 1"
  by (simp add: SpeechHandler_init_def Transcriber_init_def on_message_def check_timeout_def
      start_def Thread_start_def worker_defs transcribe_def)

section \<open>Leaving the audio stream\<close>

lemma step_leaves_scope:
  "stream (transcriber h) = InScope \<Longrightarrow> stream (transcriber (step e h)) = Exhausted \<Longrightarrow>
   queue (transcriber (step e h)) = []"
proof (cases e h rule: step_transcriber)
  case (msg t t')
  assume a: "stream (transcriber h) = InScope" "stream (transcriber (step e h)) = Exhausted"
  have "stream t' = InScope" using a(1) msg(7,9) by (auto elim!: start_cases)
  then show ?thesis using msg(10) a(2) by (auto simp: transcribe_def)
qed (auto simp: worker_defs split: option.splits stream_pc.splits list.splits if_splits)

lemma pulls_stopped:
  "stop_event (transcriber h) \<Longrightarrow>
   stream (transcriber h) = Created \<or> stream (transcriber h) = InScope
     \<or> stream (transcriber h) = Reading \<Longrightarrow>
   queue (transcriber (exec [Pull, Pull] h)) = []
   \<and> stream (transcriber (exec [Pull, Pull] h)) = Exhausted"
  by (auto simp: worker_defs split: list.splits)

text \<open>
  Claim C7, amended. Every step that takes the generator out of its \<open>with\<close> block
  leaves the queue empty, and so does the closing of the generator inside the block.
  Once the generator exists and has not finished, after \<open>stop\<close>, after the end of the
  response stream and after an error response alike, two further steps of the generator
  take it out of the block with the queue empty.
\<close>

theorem buffer_released:
  "(stream (transcriber h) = InScope \<and> stream (transcriber (step e h)) = Exhausted \<longrightarrow>
        queue (transcriber (step e h)) = [])
   \<and> (stream (transcriber h) = InScope \<longrightarrow>
        queue (transcriber (step GenClose h)) = []
        \<and> stream (transcriber (step GenClose h)) = Exhausted)
   \<and> (stream (transcriber h) = Created \<or> stream (transcriber h) = InScope
        \<or> stream (transcriber h) = Reading \<longrightarrow>
        queue (transcriber (exec [Pull, Pull] (step Stop h))) = []
        \<and> stream (transcriber (exec [Pull, Pull] (step Stop h))) = Exhausted)
   \<and> (thread (transcriber h) = Handling
        \<and> (stream (transcriber h) = Created \<or> stream (transcriber h) = InScope
           \<or> stream (transcriber h) = Reading) \<longrightarrow>
        queue (transcriber (exec [Pull, Pull] (step StreamEnd h))) = []
        \<and> stream (transcriber (exec [Pull, Pull] (step StreamEnd h))) = Exhausted)
   \<and> (thread (transcriber h) = Handling \<and> error_code resp \<noteq> OK
        \<and> (stream (transcriber h) = Created \<or> stream (transcriber h) = InScope
           \<or> stream (transcriber h) = Reading) \<longrightarrow>
        queue (transcriber (exec [Pull, Pull] (step (Response resp) h))) = []
        \<and> stream (transcriber (exec [Pull, Pull] (step (Response resp) h))) = Exhausted)"
proof -
  have g: "queue (transcriber (step GenClose h)) = []
        \<and> stream (transcriber (step GenClose h)) = Exhausted"
    if "stream (transcriber h) = InScope"
    using that by (simp add: gen_close_def exit_stream_def)
  have a: "queue (transcriber (exec [Pull, Pull] (step Stop h))) = []
        \<and> stream (transcriber (exec [Pull, Pull] (step Stop h))) = Exhausted"
    if "stream (transcriber h) = Created \<or> stream (transcriber h) = InScope
        \<or> stream (transcriber h) = Reading"
    by (rule pulls_stopped) (use that in \<open>simp_all add: stop_def\<close>)
  have b: "queue (transcriber (exec [Pull, Pull] (step StreamEnd h))) = []
        \<and> stream (transcriber (exec [Pull, Pull] (step StreamEnd h))) = Exhausted"
    if "thread (transcriber h) = Handling"
      "stream (transcriber h) = Created \<or> stream (transcriber h) = InScope
        \<or> stream (transcriber h) = Reading"
    by (rule pulls_stopped) (use that in \<open>simp_all add: run_finally_def stop_def\<close>)
  have c: "queue (transcriber (exec [Pull, Pull] (step (Response resp) h))) = []
        \<and> stream (transcriber (exec [Pull, Pull] (step (Response resp) h))) = Exhausted"
    if "thread (transcriber h) = Handling" "error_code resp \<noteq> OK"
      "stream (transcriber h) = Created \<or> stream (transcriber h) = InScope
        \<or> stream (transcriber h) = Reading"
    by (rule pulls_stopped)
       (use that in \<open>simp_all add: handle_response_def run_finally_def stop_def\<close>)
  show ?thesis using g a b c step_leaves_scope [of h e] by blast
qed

text \<open>
  Claim C7, as stated: \<open>stop\<close> leads to the queue being emptied, and after the block
  is left the queue holds no frames. A \<open>stop\<close> that comes before the thread has
  entered \<open>run\<close> ends the thread at its first test: no generator is ever created, and
  the frame stays in the queue. And a frame that arrives after the generator has left
  the block is queued and stays.
\<close>

theorem buffer_not_released:
  "queue (transcriber (exec [Message 1 (Binary ''a''), Stop, RunBegin, Connect None, Pull,
      GenClose] (SpeechHandler_init 0 False))) = [''a'']
   \<and> thread (transcriber (exec [Message 1 (Binary ''a''), Stop, RunBegin, Connect None, Pull,
      GenClose] (SpeechHandler_init 0 False))) = Finished None
   \<and> stream (transcriber (exec [Message 1 (Binary ''a''), Stop, RunBegin, Connect None, Pull,
      GenClose] (SpeechHandler_init 0 False))) = NoStream
   \<and> stream (transcriber (exec [Message 1 (Text (Some (PDict []))), RunBegin, Connect None,
      Pull, Stop, Pull] (SpeechHandler_init 0 False))) = Exhausted
   \<and> queue (transcriber (exec [Message 1 (Text (Some (PDict []))), RunBegin, Connect None,
      Pull, Stop, Pull, Message 2 (Binary ''b'')] (SpeechHandler_init 0 False))) = [''b'']"
  by (simp add: SpeechHandler_init_def Transcriber_init_def on_message_def check_timeout_def
      start_def Thread_start_def worker_defs transcribe_def)

theorem buffer_released_witness:
  "queue (transcriber (exec [Start, RunBegin, Connect None, Transcribe ''a'', Pull, Pull, Pull,
      Transcribe ''b'', Transcribe ''c''] (SpeechHandler_init 0 False))) = [''b'', ''c'']
   \<and> queue (transcriber (step GenClose
       (exec [Start, RunBegin, Connect None, Transcribe ''a'', Pull, Pull, Pull,
      Transcribe ''b'', Transcribe ''c''] (SpeechHandler_init 0 False)))) = []
   \<and> queue (transcriber (exec [Pull, Pull] (step Stop
       (exec [Start, RunBegin, Connect None, Transcribe ''a'', Pull, Pull, Pull,
      Transcribe ''b'', Transcribe ''c''] (SpeechHandler_init 0 False))))) = []
   \<and> queue (transcriber (exec [Pull, Pull] (step StreamEnd
       (exec [Start, RunBegin, Connect None, Transcribe ''a'', Pull, Pull, Pull,
      Transcribe ''b'', Transcribe ''c''] (SpeechHandler_init 0 False))))) = []"
  using buffer_released [of
      "exec [Start, RunBegin, Connect None, Transcribe ''a'', Pull, Pull, Pull,
      Transcribe ''b'', Transcribe ''c''] (SpeechHandler_init 0 False)" GenClose
      "\<lparr>error_code = 1, error_message = ''x'', results = []\<rparr>"]
  by (simp add: SpeechHandler_init_def Transcriber_init_def start_def Thread_start_def
      worker_defs transcribe_def on_transcribing_def)

section \<open>The start time\<close>

lemma for_results_handler [simp]:
  "closed (fst (for_results rs h)) = closed h"
  "start_time (fst (for_results rs h)) = start_time h"
  by (induction rs h rule: for_results.induct) (simp_all add: on_transcribed_def)

lemma handle_response_handler [simp]:
  "closed (fst (handle_response r h)) = closed h"
  "start_time (fst (handle_response r h)) = start_time h"
  by (simp_all add: handle_response_def)

lemma on_message_closed: "on_message now m h = Inr h' \<Longrightarrow> closed h' = closed h"
  by (erule on_message_cases) simp_all

lemma step_closed: "closed (step e h) = closed h"
proof (cases e)
  case (Response r)
  then show ?thesis using handle_response_handler(1) [of r h]
    by (cases "handle_response r h") (auto split: option.splits)
qed (auto simp: worker_defs on_transcribing_def dest: on_message_closed
       split: sum.splits option.splits stream_pc.splits list.splits if_splits)

lemma exec_closed: "closed (exec es h) = closed h"
  by (induction es arbitrary: h) (simp_all add: step_closed)

lemma on_message_unarmed:
  assumes "unarmed h" "on_message now m h = Inr h'"
  shows "unarmed h'"
  using assms(2)
proof (cases rule: on_message_cases)
  case (config j t t')
  from set_config_ctl [OF config(2)] config(3,4) assms(1) show ?thesis
    by (auto elim!: start_cases simp: unarmed_def)
next
  case (first d t')
  then show ?thesis using assms(1)
    by (auto elim!: start_cases simp: unarmed_def transcribe_def)
next
  case (frame d)
  then show ?thesis using assms(1) by (auto simp: unarmed_def transcribe_def)
qed

lemma step_unarmed: "unarmed h \<Longrightarrow> unarmed (step e h)"
proof (cases e)
  case (Message now m)
  assume "unarmed h"
  then show ?thesis using Message on_message_unarmed [of h now m]
    by (auto split: sum.splits)
next
  case (Response r)
  assume "unarmed h"
  then show ?thesis using Response handle_response_handler(2) [of r h] handle_response_tr [of r h]
    by (cases "handle_response r h")
       (auto simp: unarmed_def stop_def run_finally_def split: option.splits if_splits)
next
  case Start
  assume "unarmed h"
  then show ?thesis using Start
    by (auto elim!: start_cases simp: unarmed_def split: sum.splits)
qed (auto simp: unarmed_def worker_defs transcribe_def on_transcribing_def
       split: option.splits stream_pc.splits list.splits if_splits)

lemma exec_unarmed: "unarmed h \<Longrightarrow> unarmed (exec es h)"
  by (induction es arbitrary: h) (simp_all add: step_unarmed)

lemma unarmed_check: "unarmed h \<Longrightarrow> check_timeout now h = Inr False"
  by (auto simp: unarmed_def check_timeout_def split: option.splits)

lemma frame_while_started:
  "start_time h = None \<Longrightarrow> is_started (transcriber h) \<Longrightarrow>
   on_message now (Binary d) h = Inr (h\<lparr>transcriber := transcribe d (transcriber h)\<rparr>)"
  by (simp add: on_message_def check_timeout_def)

lemma frame_before_started:
  assumes "\<not> is_started (transcriber h)" "guarded (transcriber h)"
  shows "\<exists>h'. on_message now (Binary d) h = Inr h' \<and> start_time h' = Some now"
proof -
  from start_no_error [OF assms(2)] obtain t' where "start (transcriber h) = Inr t'" by blast
  then show ?thesis using assms(1)
    by (simp add: on_message_def check_timeout_def split: option.splits)
qed

text \<open>
  Claim C10, amended. When the thread is handling responses, \<open>is_started\<close> is true
  and no frame has set \<open>_start_time\<close> (the transcriber was started by a leading
  configuration message), then a binary frame is accepted and leaves \<open>_start_time\<close>
  unset, and whatever steps follow, the timeout check of a later message never fires:
  it neither raises nor closes the session. While \<open>is_started\<close> is false, every
  binary frame that arrives sets \<open>_start_time\<close> to its own clock reading.
\<close>

theorem timeout_never_armed:
  "(start_time h = None \<and> is_started (transcriber h) \<and> thread (transcriber h) = Handling \<longrightarrow>
      check_timeout now (exec es h) = Inr False
      \<and> closed (exec es h) = closed h
      \<and> (\<exists>h'. on_message now (Binary d) h = Inr h' \<and> start_time h' = None))
   \<and> (\<not> is_started (transcriber h) \<and> guarded (transcriber h) \<longrightarrow>
      (\<exists>h'. on_message now (Binary d) h = Inr h' \<and> start_time h' = Some now))"
proof -
  have "check_timeout now (exec es h) = Inr False"
    if "start_time h = None" "thread (transcriber h) = Handling"
  proof -
    have "unarmed h" using that by (simp add: unarmed_def)
    then show ?thesis by (intro unarmed_check exec_unarmed)
  qed
  then show ?thesis
    using frame_before_started [of h now d] by (auto simp: exec_closed frame_while_started)
qed

text \<open>
  Claim C10, as stated, says that \<open>_start_time\<close> is then never set. It is: the
  configuration message starts the thread, the frame at 10 arrives with
  \<open>is_started\<close> true and leaves \<open>_start_time\<close> unset, the response stream ends
  and \<open>run\<close> calls \<open>stop\<close>, and the frame at 20 finds \<open>is_started\<close> false and
  sets \<open>_start_time\<close>.
\<close>

theorem start_time_set_later:
  "is_started (transcriber (exec [Message 5 (Text (Some (PDict []))), RunBegin, Connect None]
      (SpeechHandler_init 0 False)))
   \<and> start_time (exec [Message 5 (Text (Some (PDict []))), RunBegin, Connect None,
        Message 10 (Binary ''a'')] (SpeechHandler_init 0 False)) = None
   \<and> start_time (exec [Message 5 (Text (Some (PDict []))), RunBegin, Connect None,
        Message 10 (Binary ''a''), StreamEnd, Message 20 (Binary ''b'')]
        (SpeechHandler_init 0 False)) = Some 20"
  by (simp add: SpeechHandler_init_def Transcriber_init_def on_message_def check_timeout_def
      start_def Thread_start_def worker_defs transcribe_def)

theorem timeout_never_armed_witness:
  "check_timeout 100 (exec [Message 10 (Binary ''a''), StreamEnd, Message 20 (Binary ''b'')]
     (exec [Message 5 (Text (Some (PDict []))), RunBegin, Connect None]
        (SpeechHandler_init 0 False))) = Inr False
   \<and> (\<exists>h'. on_message 7 (Binary ''a'') (SpeechHandler_init 0 False) = Inr h'
         \<and> start_time h' = Some 7)"
  using timeout_never_armed [of
     "exec [Message 5 (Text (Some (PDict []))), RunBegin, Connect None]
        (SpeechHandler_init 0 False)" 100
     "[Message 10 (Binary ''a''), StreamEnd, Message 20 (Binary ''b'')]" "''a''"]
    timeout_never_armed [of "SpeechHandler_init 0 False" 7 "[]" "''a''"]
  by (simp add: SpeechHandler_init_def Transcriber_init_def on_message_def check_timeout_def
      start_def Thread_start_def worker_defs transcribe_def guarded_def)

section \<open>The order of the frames\<close>











section \<open>The registry\<close>

lemma created_append: "created (es @ fs) = created es + created fs"
  by (induction es rule: created.induct) simp_all

lemma created_snoc: "created (es @ [e]) = (case e of New loc \<Rightarrow> Suc (created es) | _ \<Rightarrow> created es)"
  by (simp add: created_append split: conn_event.splits)

lemma open_now_created: "open_now es a \<Longrightarrow> a < created es"
  by (auto simp: open_now_def created_append)

lemma open_now_snoc:
  "open_now (es @ [e]) a \<longleftrightarrow> (e = Open a \<and> a < created es) \<or> (open_now es a \<and> e \<noteq> Closed a)"
proof
  assume "open_now (es @ [e]) a"
  then obtain pre post where p: "es @ [e] = pre @ Open a # post" "a < created pre"
    "Closed a \<notin> set post" by (auto simp: open_now_def)
  show "(e = Open a \<and> a < created es) \<or> (open_now es a \<and> e \<noteq> Closed a)"
  proof (cases post rule: rev_cases)
    case Nil
    then show ?thesis using p by simp
  next
    case (snoc post' x)
    then have "es = pre @ Open a # post'" "x = e" using p(1) by simp_all
    then show ?thesis using p(2,3) snoc by (auto simp: open_now_def)
  qed
next
  assume "(e = Open a \<and> a < created es) \<or> (open_now es a \<and> e \<noteq> Closed a)"
  then show "open_now (es @ [e]) a"
  proof
    assume b: "e = Open a \<and> a < created es"
    show ?thesis unfolding open_now_def
      by (rule exI [of _ es], rule exI [of _ "[]"]) (use b in simp)
  next
    assume a: "open_now es a \<and> e \<noteq> Closed a"
    then obtain pre post where p: "es = pre @ Open a # post" "a < created pre"
      "Closed a \<notin> set post" by (auto simp: open_now_def)
    show ?thesis unfolding open_now_def
      by (rule exI [of _ pre], rule exI [of _ "post @ [e]"]) (use p a in auto)
  qed
qed

lemma serve_snoc: "serve (es @ [e]) s = serve1 e (serve es s)"
  by (induction es arbitrary: s) simp_all

lemma registry_ok_init: "registry_ok [] server_init"
  by (simp add: registry_ok_def server_init_def open_now_def)

lemma registry_ok_step:
  assumes "registry_ok es s"
  shows "registry_ok (es @ [e]) (serve1 e s)"
proof (cases e)
  case (New loc)
  then show ?thesis using assms
    by (auto simp: registry_ok_def handler_new_def created_snoc open_now_snoc nth_append
        SpeechHandler_init_def)
next
  case (Open a)
  show ?thesis
  proof (cases "a < length (handlers s)")
    case False
    then show ?thesis using assms Open
      by (auto simp: registry_ok_def created_snoc open_now_snoc)
  next
    case True
    then have i: "hid (handlers s ! a) = a" using assms by (simp add: registry_ok_def)
    show ?thesis using assms Open True i
      by (auto simp: registry_ok_def open_conn_def created_snoc open_now_snoc Let_def)
  qed
next
  case (Closed a)
  show ?thesis
  proof (cases "a < length (handlers s)")
    case False
    then show ?thesis using assms Closed open_now_created [of es a]
      by (auto simp: registry_ok_def created_snoc open_now_snoc)
  next
    case True
    then have i: "hid (handlers s ! a) = a" using assms by (simp add: registry_ok_def)
    show ?thesis using assms Closed True i
      by (auto simp: registry_ok_def on_close_def created_snoc open_now_snoc Let_def
          nth_list_update)
  qed
qed

lemma registry_ok_serve: "registry_ok es (serve es server_init)"
  by (induction es rule: rev_induct) (simp_all add: registry_ok_init serve_snoc registry_ok_step)


lemma ids_in_order:
  assumes "\<forall>a < length hs. hid (hs ! a) = a"
  shows "map hid hs = [0..<length hs]"
  using assms by (intro nth_equalityI) simp_all

text \<open>
  Claim C9: after every sequence of creations, openings and closings, \<open>_clients\<close>
  holds, under its id, each handler that was opened and not closed since, and nothing
  else; the counter has given out the ids 0, 1, 2, ... in the order of creation, so the
  ids of all the handlers ever created are distinct.
\<close>

theorem registry:
  "(clients (serve es server_init) i = Some a \<longleftrightarrow> i = a \<and> open_now es a)
   \<and> id_counter (serve es server_init) = length (handlers (serve es server_init))
   \<and> (\<forall>a < length (handlers (serve es server_init)).
         hid (handlers (serve es server_init) ! a) = a)
   \<and> distinct (map hid (handlers (serve es server_init)))"
proof -
  have ok: "registry_ok es (serve es server_init)" by (rule registry_ok_serve)
  then have ids: "\<forall>a < length (handlers (serve es server_init)).
         hid (handlers (serve es server_init) ! a) = a"
    by (simp add: registry_ok_def)
  have "distinct (map hid (handlers (serve es server_init)))"
    by (simp add: ids_in_order [OF ids])
  then show ?thesis using ok ids by (simp add: registry_ok_def)
qed

theorem registry_witness:
  "clients (serve [New False, New True, Open 0, Open 1, Closed 0] server_init) 1 = Some 1
   \<and> clients (serve [New False, New True, Open 0, Open 1, Closed 0] server_init) 0 = None
   \<and> open_now [New False, New True, Open 0, Open 1, Closed 0] 1
   \<and> \<not> open_now [New False, New True, Open 0, Open 1, Closed 0] 0
   \<and> map hid (handlers (serve [New False, New True, Open 0, Open 1, Closed 0] server_init))
       = [0, 1]"
  using registry [of "[New False, New True, Open 0, Open 1, Closed 0]" 1 1]
    registry [of "[New False, New True, Open 0, Open 1, Closed 0]" 0 0]
  by (simp add: server_init_def handler_new_def open_conn_def on_close_def
      SpeechHandler_init_def Let_def)

end
